theory Spec2Isabelle
  imports Main
begin

section \<open>The router table (src/app/router.tsx)\<close>

text \<open>
  The table handed to \<open>createBrowserRouter\<close> is data: a list of route objects, each
  with an optional path, an element and children. The elements are the page components
  the table names; \<open>Navigate\<close> carries its target.
\<close>

datatype element = AuthPage | CustomersPage | CustomerPage | Root | Navigate string

datatype route = Route "string option" element "route list"

definition router :: "route list" where
  "router =
     [Route (Some ''login'') AuthPage [],
      Route (Some ''/'') (Navigate ''/customers'') [],
      Route None Root
        [Route (Some ''customers'') CustomersPage [],
         Route (Some ''/customers/:customerId'') CustomerPage []]]"

text \<open>
  Matching is the routing library's. Its part that this table exercises is modelled here:
  a path is cut into its non-empty segments; every route with a path gives a branch, the
  chain of elements from the outermost layout down to it, under the segments of its full
  path (a child path that starts with a slash is already full, a relative one is appended
  to its parent's); a segment that starts with a colon matches any segment. The library
  ranks branches before it tries them; this table has no two branches that match the same
  path, so the branches are tried in table order.
\<close>

fun segments_from :: "string \<Rightarrow> string \<Rightarrow> string list" where
  "segments_from [] cur = (if cur = [] then [] else [cur])"
| "segments_from (c # cs) cur =
     (if c = CHR ''/'' then (if cur = [] then segments_from cs [] else cur # segments_from cs [])
      else segments_from cs (cur @ [c]))"

definition segments :: "string \<Rightarrow> string list" where
  "segments p = segments_from p []"

definition joinPaths :: "string list \<Rightarrow> string \<Rightarrow> string list" where
  "joinPaths parent p = (if p \<noteq> [] \<and> hd p = CHR ''/'' then segments p else parent @ segments p)"

fun flattenRoutes :: "string list \<Rightarrow> element list \<Rightarrow> route \<Rightarrow> (string list \<times> element list) list" where
  "flattenRoutes parent outer (Route p e cs) =
     (let full = (case p of None \<Rightarrow> parent | Some q \<Rightarrow> joinPaths parent q);
          chain = outer @ [e]
      in (case p of None \<Rightarrow> [] | Some q \<Rightarrow> [(full, chain)])
         @ concat (map (flattenRoutes full chain) cs))"

fun matchSegment :: "string \<Rightarrow> string \<Rightarrow> bool" where
  "matchSegment pat seg = ((pat \<noteq> [] \<and> hd pat = CHR '':'') \<or> pat = seg)"

definition matchPath :: "string list \<Rightarrow> string list \<Rightarrow> bool" where
  "matchPath pats segs = (length pats = length segs \<and> list_all2 matchSegment pats segs)"

definition matchRoutes :: "route list \<Rightarrow> string \<Rightarrow> element list option" where
  "matchRoutes routes location =
     map_option snd
       (find (\<lambda>branch. matchPath (fst branch) (segments location))
          (concat (map (flattenRoutes [] []) routes)))"

text \<open>
  Rendering a location shows the matched chain. A chain that ends in \<open>Navigate to\<close>
  navigates on the client to \<open>to\<close>, and the page shown is the one rendered there; \<open>None\<close>
  is a location that no route matches, or a chain of redirects longer than the fuel.
\<close>

fun rendered :: "nat \<Rightarrow> route list \<Rightarrow> string \<Rightarrow> element list option" where
  "rendered 0 routes location = None"
| "rendered (Suc n) routes location =
     (case matchRoutes routes location of
        None \<Rightarrow> None
      | Some chain \<Rightarrow>
          (case last chain of
             Navigate to \<Rightarrow> rendered n routes to
           | _ \<Rightarrow> Some chain))"

section \<open>JSON text, as the hook's default serializer and deserializer use it\<close>

text \<open>
  The hook stores \<open>JSON.stringify(value)\<close> and reads back \<open>JSON.parse(raw)\<close>. Both are the
  platform's; they are written out here on a fragment of the language's values: text is
  over 8-bit code units, a number is an integer that a double holds exactly (at most
  \<open>2^53 - 1\<close> in magnitude), an object is the list of its own properties in the order the
  language enumerates them. \<open>JUndefined\<close> is \<open>undefined\<close>. \<open>JOther\<close> stands for a value that
  well-formed JSON text denotes outside this fragment (a number with a fraction or an
  exponent, or beyond the safe integers, negative zero, a string with a code unit above
  \<open>FF\<close>): it keeps the text, and nothing below depends on what the value is.
\<close>

datatype js_value =
    JUndefined | JNull | JBool bool | JNum int | JStr string
  | JArr "js_value list" | JObj "(string \<times> js_value) list" | JOther string

subsection \<open>JSON.stringify\<close>

text \<open>
  Integers print in decimal. A string prints between double quotes, with the quote, the
  backslash and the control characters escaped (the short escapes for backspace, tab,
  line feed, form feed and carriage return; four lower-case hex digits for the others).
\<close>

definition digit_char :: "nat \<Rightarrow> char" where
  "digit_char n = char_of (48 + n)"

fun show_nat :: "nat \<Rightarrow> string" where
  "show_nat n = (if n < 10 then [digit_char n] else show_nat (n div 10) @ [digit_char (n mod 10)])"

declare show_nat.simps [simp del]

definition show_int :: "int \<Rightarrow> string" where
  "show_int i = (if i < 0 then CHR ''-'' # show_nat (nat (- i)) else show_nat (nat i))"

definition hex_char :: "nat \<Rightarrow> char" where
  "hex_char n = (if n < 10 then char_of (48 + n) else char_of (87 + n))"

definition quote_char :: "char \<Rightarrow> string" where
  "quote_char c =
     (if c = CHR 0x22 then [CHR 0x5C, CHR 0x22]
      else if c = CHR 0x5C then [CHR 0x5C, CHR 0x5C]
      else if c = CHR 0x08 then [CHR 0x5C, CHR ''b'']
      else if c = CHR 0x09 then [CHR 0x5C, CHR ''t'']
      else if c = CHR 0x0A then [CHR 0x5C, CHR ''n'']
      else if c = CHR 0x0C then [CHR 0x5C, CHR ''f'']
      else if c = CHR 0x0D then [CHR 0x5C, CHR ''r'']
      else if (of_char c :: nat) < 32
           then [CHR 0x5C, CHR ''u'', CHR ''0'', CHR ''0'',
                 hex_char (of_char c div 16), hex_char (of_char c mod 16)]
      else [c])"

definition quote :: "string \<Rightarrow> string" where
  "quote s = CHR 0x22 # concat (map quote_char s) @ [CHR 0x22]"

text \<open>
  \<open>JSON.stringify\<close> of \<open>undefined\<close> is \<open>undefined\<close> (\<open>None\<close>); inside an array \<open>undefined\<close>
  prints as \<open>null\<close>, and a property whose value is \<open>undefined\<close> is left out.
\<close>

fun join :: "string list \<Rightarrow> string" where
  "join [] = []"
| "join [t] = t"
| "join (t # ts) = t @ CHR '','' # join ts"

fun JSON_stringify :: "js_value \<Rightarrow> string option"
  and stringify_elements :: "js_value list \<Rightarrow> string list"
  and stringify_members :: "(string \<times> js_value) list \<Rightarrow> string list"
where
  "JSON_stringify JUndefined = None"
| "JSON_stringify JNull = Some ''null''"
| "JSON_stringify (JBool b) = Some (if b then ''true'' else ''false'')"
| "JSON_stringify (JNum n) = Some (show_int n)"
| "JSON_stringify (JStr s) = Some (quote s)"
| "JSON_stringify (JArr vs) = Some (CHR ''['' # join (stringify_elements vs) @ '']'')"
| "JSON_stringify (JObj kvs) = Some (CHR ''{'' # join (stringify_members kvs) @ ''}'')"
| "JSON_stringify (JOther t) = Some t"
| "stringify_elements [] = []"
| "stringify_elements (v # vs) =
     (case JSON_stringify v of None \<Rightarrow> ''null'' | Some t \<Rightarrow> t) # stringify_elements vs"
| "stringify_members [] = []"
| "stringify_members ((k, v) # kvs) =
     (case JSON_stringify v of
        None \<Rightarrow> stringify_members kvs
      | Some t \<Rightarrow> (quote k @ CHR '':'' # t) # stringify_members kvs)"

subsection \<open>JSON.parse\<close>

text \<open>
  A recursive-descent reader of the JSON grammar. Each reader returns the value, whether
  the text read so far left the fragment (the value is then a placeholder, and the whole
  result becomes \<open>JOther\<close>), and the rest of the input; \<open>None\<close> is a syntax error.
\<close>

definition is_ws :: "char \<Rightarrow> bool" where
  "is_ws c = (c = CHR 0x20 \<or> c = CHR 0x09 \<or> c = CHR 0x0A \<or> c = CHR 0x0D)"

definition skip_ws :: "string \<Rightarrow> string" where
  "skip_ws cs = dropWhile is_ws cs"

definition is_digit :: "char \<Rightarrow> bool" where
  "is_digit c = (48 \<le> (of_char c :: nat) \<and> (of_char c :: nat) \<le> 57)"

definition digit_val :: "char \<Rightarrow> nat" where
  "digit_val c = of_char c - 48"

definition nat_of_digits :: "string \<Rightarrow> nat" where
  "nat_of_digits ds = foldl (\<lambda>a c. 10 * a + digit_val c) 0 ds"

definition hex_val :: "char \<Rightarrow> nat option" where
  "hex_val c =
     (let n = (of_char c :: nat) in
      if 48 \<le> n \<and> n \<le> 57 then Some (n - 48)
      else if 97 \<le> n \<and> n \<le> 102 then Some (n - 87)
      else if 65 \<le> n \<and> n \<le> 70 then Some (n - 55)
      else None)"

definition unescape :: "char \<Rightarrow> char option" where
  "unescape e =
     (if e = CHR 0x22 then Some (CHR 0x22)
      else if e = CHR 0x5C then Some (CHR 0x5C)
      else if e = CHR ''/'' then Some (CHR ''/'')
      else if e = CHR ''b'' then Some (CHR 0x08)
      else if e = CHR ''f'' then Some (CHR 0x0C)
      else if e = CHR ''n'' then Some (CHR 0x0A)
      else if e = CHR ''r'' then Some (CHR 0x0D)
      else if e = CHR ''t'' then Some (CHR 0x09)
      else None)"

text \<open>
  The characters of a string, after its opening quote and up to the closing one. A
  control character is a syntax error; an escape is one of the eight short ones or
  \<open>u\<close> and four hex digits, where a code unit above \<open>FF\<close> leaves the fragment.
\<close>

definition cons_char :: "char \<Rightarrow> bool \<Rightarrow> (string \<times> bool \<times> string) option
    \<Rightarrow> (string \<times> bool \<times> string) option" where
  "cons_char c t r = map_option (\<lambda>(s, t', rest). (c # s, t \<or> t', rest)) r"

fun parse_chars :: "string \<Rightarrow> (string \<times> bool \<times> string) option" where
  "parse_chars [] = None"
| "parse_chars (c # cs) =
     (if c = CHR 0x22 then Some ([], False, cs)
      else if c = CHR 0x5C then
        (case cs of
           [] \<Rightarrow> None
         | e # cs1 \<Rightarrow>
             if e = CHR ''u'' then
               (case cs1 of
                  h1 # h2 # h3 # h4 # cs2 \<Rightarrow>
                    (case (hex_val h1, hex_val h2, hex_val h3, hex_val h4) of
                       (Some a, Some b, Some c', Some d) \<Rightarrow>
                         cons_char (char_of (16 * c' + d)) (a \<noteq> 0 \<or> b \<noteq> 0) (parse_chars cs2)
                     | _ \<Rightarrow> None)
                | _ \<Rightarrow> None)
             else
               (case unescape e of
                  None \<Rightarrow> None
                | Some d \<Rightarrow> cons_char d False (parse_chars cs1)))
      else if (of_char c :: nat) < 32 then None
      else cons_char c False (parse_chars cs))"

text \<open>
  A number is an optional minus, an integer part without a leading zero (or a single
  zero), an optional fraction and an optional exponent. Only an integer within the safe
  range, and not negative zero, stays in the fragment.
\<close>

definition MAX_SAFE_INTEGER :: int where
  "MAX_SAFE_INTEGER = 2 ^ 53 - 1"

definition parse_fraction :: "string \<Rightarrow> (bool \<times> string) option" where
  "parse_fraction cs =
     (case cs of
        [] \<Rightarrow> Some (False, cs)
      | c # r \<Rightarrow>
          if c = CHR ''.'' then
            (if takeWhile is_digit r = [] then None else Some (True, dropWhile is_digit r))
          else Some (False, cs))"

definition parse_exponent :: "string \<Rightarrow> (bool \<times> string) option" where
  "parse_exponent cs =
     (case cs of
        [] \<Rightarrow> Some (False, cs)
      | c # r \<Rightarrow>
          if c = CHR ''e'' \<or> c = CHR ''E'' then
            (let r' = (case r of [] \<Rightarrow> r | s # r'' \<Rightarrow> if s = CHR ''+'' \<or> s = CHR ''-'' then r'' else r)
             in if takeWhile is_digit r' = [] then None else Some (True, dropWhile is_digit r'))
          else Some (False, cs))"

definition parse_number :: "string \<Rightarrow> (js_value \<times> bool \<times> string) option" where
  "parse_number cs =
     (let neg = (cs \<noteq> [] \<and> hd cs = CHR ''-'');
          r0 = (if neg then tl cs else cs)
      in case r0 of
           [] \<Rightarrow> None
         | d # r \<Rightarrow>
             if \<not> is_digit d then None
             else
               (let ds = (if d = CHR ''0'' then [d] else takeWhile is_digit r0);
                    r1 = (if d = CHR ''0'' then r else dropWhile is_digit r0);
                    n = nat_of_digits ds
                in case parse_fraction r1 of
                     None \<Rightarrow> None
                   | Some (frac, r2) \<Rightarrow>
                       (case parse_exponent r2 of
                          None \<Rightarrow> None
                        | Some (ex, r3) \<Rightarrow>
                            Some (JNum (if neg then - int n else int n),
                                  frac \<or> ex \<or> MAX_SAFE_INTEGER < int n \<or> (neg \<and> n = 0),
                                  r3))))"

fun strip_prefix :: "string \<Rightarrow> string \<Rightarrow> string option" where
  "strip_prefix [] cs = Some cs"
| "strip_prefix (p # ps) [] = None"
| "strip_prefix (p # ps) (c # cs) = (if p = c then strip_prefix ps cs else None)"

definition parse_literal :: "string \<Rightarrow> js_value \<Rightarrow> string \<Rightarrow> (js_value \<times> bool \<times> string) option" where
  "parse_literal word v cs = map_option (\<lambda>rest. (v, False, rest)) (strip_prefix word cs)"

text \<open>
  An object gets its properties in the order of the text, and enumerates them the way
  the language orders own properties: array indices first, in ascending order, then the
  other keys in the order they were created; a duplicate key overwrites the value in
  place.
\<close>

definition is_array_index :: "string \<Rightarrow> bool" where
  "is_array_index k =
     (k \<noteq> [] \<and> list_all is_digit k \<and> (if hd k = CHR ''0'' then k = ''0'' else True)
      \<and> int (nat_of_digits k) < 2 ^ 32 - 1)"

fun insert_index :: "string \<Rightarrow> js_value \<Rightarrow> (string \<times> js_value) list \<Rightarrow> (string \<times> js_value) list" where
  "insert_index k v [] = [(k, v)]"
| "insert_index k v ((k', v') # obj) =
     (if is_array_index k' \<and> nat_of_digits k' < nat_of_digits k
      then (k', v') # insert_index k v obj
      else (k, v) # (k', v') # obj)"

definition define_property :: "(string \<times> js_value) list \<Rightarrow> string \<times> js_value \<Rightarrow> (string \<times> js_value) list" where
  "define_property obj kv =
     (if fst kv \<in> fst ` set obj then map (\<lambda>kv'. if fst kv' = fst kv then kv else kv') obj
      else if is_array_index (fst kv) then insert_index (fst kv) (snd kv) obj
      else obj @ [kv])"

definition build_object :: "(string \<times> js_value) list \<Rightarrow> js_value" where
  "build_object kvs = JObj (foldl define_property [] kvs)"

text \<open>
  Values, the elements of an array after its opening bracket, and the members of an
  object after its opening brace. The tests \<open>length r < length cs\<close> make the recursion
  well-founded; they never fail, since a reader that succeeds has consumed input
  (\<open>parse_chars_shorter\<close> and \<open>parse_value_consumes\<close> below).
\<close>

function parse_value :: "string \<Rightarrow> (js_value \<times> bool \<times> string) option"
  and parse_elements :: "string \<Rightarrow> (js_value list \<times> bool \<times> string) option"
  and parse_members :: "string \<Rightarrow> ((string \<times> js_value) list \<times> bool \<times> string) option"
where
  "parse_value cs =
     (case skip_ws cs of
        [] \<Rightarrow> None
      | c # r \<Rightarrow>
          if c = CHR ''{'' then
            (case skip_ws r of
               [] \<Rightarrow> None
             | d # r' \<Rightarrow>
                 if d = CHR ''}'' then Some (JObj [], False, r')
                 else map_option (\<lambda>(kvs, t, rest). (build_object kvs, t, rest))
                        (parse_members (skip_ws r)))
          else if c = CHR ''['' then
            (case skip_ws r of
               [] \<Rightarrow> None
             | d # r' \<Rightarrow>
                 if d = CHR '']'' then Some (JArr [], False, r')
                 else map_option (\<lambda>(vs, t, rest). (JArr vs, t, rest))
                        (parse_elements (skip_ws r)))
          else if c = CHR 0x22 then map_option (\<lambda>(s, t, rest). (JStr s, t, rest)) (parse_chars r)
          else if c = CHR ''t'' then parse_literal ''true'' (JBool True) (c # r)
          else if c = CHR ''f'' then parse_literal ''false'' (JBool False) (c # r)
          else if c = CHR ''n'' then parse_literal ''null'' JNull (c # r)
          else parse_number (c # r))"
| "parse_elements cs =
     (case parse_value cs of
        None \<Rightarrow> None
      | Some (v, t, r) \<Rightarrow>
          if \<not> length r < length cs then None
          else
            (case skip_ws r of
               [] \<Rightarrow> None
             | c # r' \<Rightarrow>
                 if c = CHR '']'' then Some ([v], t, r')
                 else if c = CHR '','' then
                   map_option (\<lambda>(vs, t', rest). (v # vs, t \<or> t', rest)) (parse_elements r')
                 else None))"
| "parse_members cs =
     (case skip_ws cs of
        [] \<Rightarrow> None
      | q # r0 \<Rightarrow>
          if q \<noteq> CHR 0x22 then None
          else
            (case parse_chars r0 of
               None \<Rightarrow> None
             | Some (k, tk, r1) \<Rightarrow>
                 if \<not> length r1 < length r0 then None
                 else
                   (case skip_ws r1 of
                      [] \<Rightarrow> None
                    | c # r2 \<Rightarrow>
                        if c \<noteq> CHR '':'' then None
                        else
                          (case parse_value r2 of
                             None \<Rightarrow> None
                           | Some (v, tv, r3) \<Rightarrow>
                               if \<not> length r3 < length r2 then None
                               else
                                 (case skip_ws r3 of
                                    [] \<Rightarrow> None
                                  | d # r4 \<Rightarrow>
                                      if d = CHR ''}'' then Some ([(k, v)], tk \<or> tv, r4)
                                      else if d = CHR '','' then
                                        map_option (\<lambda>(kvs, t', rest). ((k, v) # kvs, tk \<or> tv \<or> t', rest))
                                          (parse_members r4)
                                      else None)))))"
  by pat_completeness auto

termination
proof -
  have length_skip_ws: "length (skip_ws cs) \<le> length cs" for cs
    by (simp add: skip_ws_def length_dropWhile_le)
  show ?thesis
  proof (relation "measure (\<lambda>x. case x of
            Inl cs \<Rightarrow> 2 * length cs + 1
          | Inr (Inl cs) \<Rightarrow> 2 * length cs + 2
          | Inr (Inr cs) \<Rightarrow> 2 * length cs + 2)", goal_cases)
    case 1
    show ?case by simp
  next
    case (2 cs c r d r')
    have "length (skip_ws r) \<le> length r" by (rule length_skip_ws)
    moreover have "length (c # r) \<le> length cs" using 2(1) length_skip_ws [of cs] by simp
    ultimately show ?case by simp
  next
    case (3 cs c r d r')
    have "length (skip_ws r) \<le> length r" by (rule length_skip_ws)
    moreover have "length (c # r) \<le> length cs" using 3(1) length_skip_ws [of cs] by simp
    ultimately show ?case by simp
  next
    case 4
    show ?case by simp
  next
    case (5 cs x v y t r c r')
    have "length (c # r') \<le> length r" using 5 length_skip_ws [of r] by simp
    then show ?case using 5 by simp
  next
    case (6 cs q r0 x k y tk r1 c r2)
    have a: "length (q # r0) \<le> length cs" using 6(1) length_skip_ws [of cs] by simp
    have b: "length (c # r2) \<le> length r1" using 6 length_skip_ws [of r1] by simp
    show ?case using a b 6 by simp
  next
    case (7 cs q r0 x k y tk r1 c r2 x' v y' tv r3 d r4)
    have a: "length (q # r0) \<le> length cs" using 7(1) length_skip_ws [of cs] by simp
    have b: "length (c # r2) \<le> length r1" using 7 length_skip_ws [of r1] by simp
    have c: "length (d # r4) \<le> length r3" using 7 length_skip_ws [of r3] by simp
    show ?case using a b c 7 by simp
  qed
qed

declare parse_value.simps [simp del] parse_elements.simps [simp del] parse_members.simps [simp del]

text \<open>
  What can be thrown: the platform's errors that the hook can meet, and whatever the
  caller's own callbacks throw.
\<close>

datatype js_exn = SyntaxError | ReferenceError | SecurityError | QuotaExceededError | Thrown string

text \<open>
  The whole text must be one value, with white space around it at most.
\<close>

definition JSON_parse :: "string \<Rightarrow> js_exn + js_value" where
  "JSON_parse raw =
     (case parse_value raw of
        None \<Rightarrow> Inl SyntaxError
      | Some (v, tainted, rest) \<Rightarrow>
          if skip_ws rest \<noteq> [] then Inl SyntaxError
          else if tainted then Inr (JOther raw)
          else Inr v)"

subsection \<open>The values that JSON represents\<close>




section \<open>The browser, as the hook sees it\<close>

text \<open>
  The hook touches four things outside itself: \<open>window.localStorage\<close>, the listeners
  registered on event targets, the console, and the events it dispatches on the window.
  They are the fields of one state record, together with the two pieces of React state
  the hook owns: the value held by \<open>useState\<close> (\<open>storedValue\<close>) and whether the layout
  effect of \<open>useEventCallback\<close> has stored the callbacks in their refs (\<open>committed\<close>).

  The persistence store is a map from keys to texts. The platform may refuse access to
  it altogether (\<open>blocked\<close>: reading \<open>window.localStorage\<close> raises a SecurityError), and it
  may refuse a write (\<open>refuses\<close>, a policy over the current content, the key and the text:
  \<open>setItem\<close> raises a QuotaExceededError). \<open>window = None\<close> is a context with no window,
  where \<open>typeof window === 'undefined'\<close> and any mention of \<open>window\<close> raises a
  ReferenceError.
\<close>

record storage =
  items :: "string \<rightharpoonup> string"
  blocked :: bool
  refuses :: "(string \<rightharpoonup> string) \<Rightarrow> string \<Rightarrow> string \<Rightarrow> bool"

datatype event_target = Window | Element nat | LegacyMediaQueryList nat

text \<open>
  Every target but a media query list of an old engine has \<open>addEventListener\<close>.
\<close>

fun has_addEventListener :: "event_target \<Rightarrow> bool" where
  "has_addEventListener Window = True"
| "has_addEventListener (Element n) = True"
| "has_addEventListener (LegacyMediaQueryList n) = False"

record event =
  event_type :: string
  event_key :: "string option"

datatype console_method = Console_warn | Console_error

text \<open>
  The five messages the hook prints, with the key and the caught error they carry.
\<close>

datatype message =
    Error_reading string js_exn
  | Error_setting string js_exn
  | Tried_setting string
  | Tried_removing string
  | Error_parsing_JSON js_exn

record state =
  window :: "storage option"
  listeners :: "(event_target \<times> string) list"
  console :: "(console_method \<times> message) list"
  dispatched :: "event list"
  committed :: bool
  storedValue :: js_value

text \<open>
  A statement either completes normally with a value or throws; an action maps a state
  to its completion and the state it leaves. \<open>and_then\<close> is sequencing (a throw skips the
  rest), \<open>try_catch\<close> is \<open>try { ... } catch (error) { ... }\<close>.
\<close>

datatype 'a completion = Normal 'a | Throw js_exn

type_synonym 'a action = "state \<Rightarrow> 'a completion \<times> state"

definition returns :: "'a \<Rightarrow> 'a action" where
  "returns v s = (Normal v, s)"

definition throws :: "js_exn \<Rightarrow> 'a action" where
  "throws e s = (Throw e, s)"

definition and_then :: "'a action \<Rightarrow> ('a \<Rightarrow> 'b action) \<Rightarrow> 'b action" where
  "and_then m f s = (case m s of (Normal v, s') \<Rightarrow> f v s' | (Throw e, s') \<Rightarrow> (Throw e, s'))"

definition try_catch :: "'a action \<Rightarrow> (js_exn \<Rightarrow> 'a action) \<Rightarrow> 'a action" where
  "try_catch body handler s =
     (case body s of (Normal v, s') \<Rightarrow> (Normal v, s') | (Throw e, s') \<Rightarrow> handler e s')"

definition lift :: "js_exn + 'a \<Rightarrow> 'a action" where
  "lift r = (case r of Inl e \<Rightarrow> throws e | Inr v \<Rightarrow> returns v)"

definition IS_SERVER :: "state \<Rightarrow> bool" where
  "IS_SERVER s = (window s = None)"

definition console_log :: "console_method \<Rightarrow> message \<Rightarrow> unit action" where
  "console_log m msg s = (Normal (), s\<lparr>console := console s @ [(m, msg)]\<rparr>)"

definition window_localStorage :: "storage action" where
  "window_localStorage s =
     (case window s of
        None \<Rightarrow> (Throw ReferenceError, s)
      | Some st \<Rightarrow> if blocked st then (Throw SecurityError, s) else (Normal st, s))"

definition getItem :: "string \<Rightarrow> string option action" where
  "getItem k = and_then window_localStorage (\<lambda>st. returns (items st k))"

definition setItem :: "storage \<Rightarrow> string \<Rightarrow> string \<Rightarrow> unit action" where
  "setItem st k t s =
     (if refuses st (items st) k t then (Throw QuotaExceededError, s)
      else (Normal (), s\<lparr>window := Some (st\<lparr>items := (items st)(k \<mapsto> t)\<rparr>)\<rparr>))"

definition removeItem :: "string \<Rightarrow> unit action" where
  "removeItem k =
     and_then window_localStorage
       (\<lambda>st s. (Normal (), s\<lparr>window := Some (st\<lparr>items := (items st)(k := None)\<rparr>)\<rparr>))"

text \<open>
  \<open>setItem\<close> takes a string: handed \<open>undefined\<close> (what \<open>JSON.stringify\<close> returns for
  \<open>undefined\<close>), it stores the text \<open>undefined\<close>.
\<close>

definition DOMString :: "string option \<Rightarrow> string" where
  "DOMString r = (case r of None \<Rightarrow> ''undefined'' | Some t \<Rightarrow> t)"

definition setStoredValue :: "js_value \<Rightarrow> unit action" where
  "setStoredValue v s = (Normal (), s\<lparr>storedValue := v\<rparr>)"

section \<open>The event-subscription utility (useEventListener)\<close>

text \<open>
  The effect of \<open>useEventListener\<close> (lines 75 to 92). Its third argument is absent
  (\<open>None\<close>), or a ref whose \<open>current\<close> is null (\<open>Some None\<close>) or a target
  (\<open>Some (Some t)\<close>). The target is \<open>element?.current ?? window\<close>; the effect returns
  without subscribing when the target has no \<open>addEventListener\<close>, and otherwise adds the
  listener and returns what its cleanup removes.
\<close>

definition useEventListener ::
  "string \<Rightarrow> event_target option option \<Rightarrow> (event_target \<times> string) option action" where
  "useEventListener eventName ref =
     and_then
       (case ref of
          Some (Some current) \<Rightarrow> returns current
        | _ \<Rightarrow> (\<lambda>s. if window s = None then (Throw ReferenceError, s) else (Normal Window, s)))
       (\<lambda>targetElement.
          if \<not> has_addEventListener targetElement then returns None
          else (\<lambda>s. (Normal (Some (targetElement, eventName)),
                     s\<lparr>listeners := listeners s @ [(targetElement, eventName)]\<rparr>)))"

definition cleanup :: "(event_target \<times> string) option \<Rightarrow> unit action" where
  "cleanup registered s =
     (case registered of
        None \<Rightarrow> (Normal (), s)
      | Some l \<Rightarrow> (Normal (), s\<lparr>listeners := remove1 l (listeners s)\<rparr>))"

section \<open>The persistent-state hook (useLocalStorage)\<close>

text \<open>
  The arguments of the hook: the key, the initial value (a value or a producer, called
  each time the value is needed and taken to return normally), and the options. A custom
  serializer or deserializer is the caller's code and may throw; so may the function
  handed to the setter.
\<close>

datatype 'a initial = Direct 'a | Producer "unit \<Rightarrow> 'a"

datatype 'a SetStateAction = Value 'a | Updater "'a \<Rightarrow> js_exn + 'a"

record options =
  options_serializer :: "(js_value \<Rightarrow> js_exn + string) option"
  options_deserializer :: "(string \<Rightarrow> js_exn + js_value) option"
  options_initializeWithValue :: "bool option"

record hook =
  key :: string
  initialValue :: "js_value initial"
  options :: options

definition resolve :: "'a initial \<Rightarrow> 'a" where
  "resolve init = (case init of Direct v \<Rightarrow> v | Producer f \<Rightarrow> f ())"

definition initializeWithValue :: "hook \<Rightarrow> bool" where
  "initializeWithValue h = (case options_initializeWithValue (options h) of None \<Rightarrow> True | Some b \<Rightarrow> b)"

definition serializer :: "hook \<Rightarrow> js_value \<Rightarrow> string option action" where
  "serializer h v =
     (case options_serializer (options h) of
        Some f \<Rightarrow> and_then (lift (f v)) (\<lambda>t. returns (Some t))
      | None \<Rightarrow> returns (JSON_stringify v))"

definition deserializer :: "hook \<Rightarrow> string \<Rightarrow> js_value action" where
  "deserializer h raw =
     (case options_deserializer (options h) of
        Some f \<Rightarrow> lift (f raw)
      | None \<Rightarrow>
          if raw = ''undefined'' then returns JUndefined
          else
            (let defaultValue = resolve (initialValue h) in
             try_catch (lift (JSON_parse raw))
               (\<lambda>error. and_then (console_log Console_error (Error_parsing_JSON error))
                           (\<lambda>_. returns defaultValue))))"

text \<open>
  \<open>raw ? deserializer(raw) : initialValueToUse\<close>: a key that is absent and a key that
  holds the empty text are both falsy.
\<close>

definition readValue :: "hook \<Rightarrow> js_value action" where
  "readValue h s =
     (let initialValueToUse = resolve (initialValue h) in
      if IS_SERVER s then (Normal initialValueToUse, s)
      else
        try_catch
          (and_then (getItem (key h))
             (\<lambda>raw. case raw of
                       None \<Rightarrow> returns initialValueToUse
                     | Some t \<Rightarrow>
                         if t = [] then returns initialValueToUse else deserializer h t))
          (\<lambda>error. and_then (console_log Console_warn (Error_reading (key h) error))
                      (\<lambda>_. returns initialValueToUse))
          s)"

text \<open>
  The guard of \<open>handleStorageChange\<close> is \<open>event.key && event.key !== key\<close>: it returns
  early only for a key that is truthy (present and not empty) and different.
\<close>

definition handleStorageChange :: "hook \<Rightarrow> event \<Rightarrow> unit action" where
  "handleStorageChange h ev =
     (if (case event_key ev of None \<Rightarrow> False | Some k \<Rightarrow> k \<noteq> [] \<and> k \<noteq> key h)
      then returns ()
      else and_then (readValue h) setStoredValue)"

text \<open>
  \<open>window.dispatchEvent\<close> runs the listeners on the window before it returns. The model
  follows one hook instance: once its effect has subscribed \<open>handleStorageChange\<close> on the
  window for the event's type, the dispatch runs it.
\<close>

definition dispatchEvent :: "hook \<Rightarrow> event \<Rightarrow> unit action" where
  "dispatchEvent h ev s =
     (if window s = None then (Throw ReferenceError, s)
      else
        (let s' = s\<lparr>dispatched := dispatched s @ [ev]\<rparr> in
         if (Window, event_type ev) \<in> set (listeners s')
         then (Normal (), snd (handleStorageChange h ev s'))
         else (Normal (), s')))"

text \<open>
  \<open>useEventCallback\<close> hands out a stable function that calls what its ref holds: until
  the layout effect has run, that is a function that throws.
\<close>

definition useEventCallback :: "'a action \<Rightarrow> 'a action" where
  "useEventCallback fn s =
     (if committed s then fn s
      else (Throw (Thrown ''Cannot call an event handler while rendering.''), s))"

text \<open>
  \<open>const newValue = value instanceof Function ? value(readValue()) : value\<close>
\<close>

definition newValue :: "hook \<Rightarrow> js_value SetStateAction \<Rightarrow> js_value action" where
  "newValue h action =
     (case action of
        Updater f \<Rightarrow> and_then (readValue h) (\<lambda>prev. lift (f prev))
      | Value v \<Rightarrow> returns v)"

text \<open>
  In \<open>window.localStorage.setItem(key, serializer(newValue))\<close> the store is reached
  before the argument is computed, so a missing window or a blocked store throws before
  the serializer runs.
\<close>

definition setValue :: "hook \<Rightarrow> js_value SetStateAction \<Rightarrow> unit action" where
  "setValue h action =
     useEventCallback
       (and_then (\<lambda>s. if IS_SERVER s then console_log Console_warn (Tried_setting (key h)) s
                       else (Normal (), s))
          (\<lambda>_. try_catch
                  (and_then (newValue h action)
                     (\<lambda>v.
                        and_then window_localStorage
                          (\<lambda>st. and_then (serializer h v)
                             (\<lambda>t. and_then (setItem st (key h) (DOMString t))
                                (\<lambda>_. and_then (setStoredValue v)
                                   (\<lambda>_. dispatchEvent h
                                           \<lparr>event_type = ''local-storage'', event_key = Some (key h)\<rparr>))))))
                  (\<lambda>error. console_log Console_warn (Error_setting (key h) error))))"

definition removeValue :: "hook \<Rightarrow> unit action" where
  "removeValue h =
     useEventCallback
       (and_then (\<lambda>s. if IS_SERVER s then console_log Console_warn (Tried_removing (key h)) s
                       else (Normal (), s))
          (\<lambda>_. let defaultValue = resolve (initialValue h) in
                and_then (removeItem (key h))
                  (\<lambda>_. and_then (setStoredValue defaultValue)
                     (\<lambda>_. dispatchEvent h
                             \<lparr>event_type = ''local-storage'', event_key = Some (key h)\<rparr>))))"

text \<open>
  The first use of the hook: \<open>render\<close> is the initialiser of \<open>useState\<close>; \<open>commit\<close> is what
  runs after it, in order: the layout effect of \<open>useEventCallback\<close>, the effect that
  re-reads the store for the key, and the two subscriptions.
\<close>

definition render :: "hook \<Rightarrow> unit action" where
  "render h =
     and_then
       (if initializeWithValue h then readValue h else returns (resolve (initialValue h)))
       setStoredValue"

definition commit :: "hook \<Rightarrow> unit action" where
  "commit h =
     and_then (\<lambda>s. (Normal (), s\<lparr>committed := True\<rparr>))
       (\<lambda>_. and_then (and_then (readValue h) setStoredValue)
          (\<lambda>_. and_then (useEventListener ''storage'' None)
             (\<lambda>_. and_then (useEventListener ''local-storage'' None)
                (\<lambda>_. returns ()))))"

definition useLocalStorage :: "hook \<Rightarrow> unit action" where
  "useLocalStorage h = and_then (render h) (\<lambda>_. commit h)"

section \<open>Contexts and hooks of the scenarios\<close>

text \<open>
  A store that accepts every write and one that refuses every write; a browser tab before
  the hook is first used, over a given store content; a context without a window; the
  options left out.
\<close>

definition open_store :: "(string \<rightharpoonup> string) \<Rightarrow> storage" where
  "open_store content = \<lparr>items = content, blocked = False, refuses = (\<lambda>_ _ _. False)\<rparr>"

definition full_store :: "(string \<rightharpoonup> string) \<Rightarrow> storage" where
  "full_store content = \<lparr>items = content, blocked = False, refuses = (\<lambda>_ _ _. True)\<rparr>"

definition browser :: "(string \<rightharpoonup> string) \<Rightarrow> state" where
  "browser content =
     \<lparr>window = Some (open_store content),
      listeners = [], console = [], dispatched = [], committed = False, storedValue = JUndefined\<rparr>"

definition server :: state where
  "server =
     \<lparr>window = None, listeners = [], console = [], dispatched = [], committed = False,
      storedValue = JUndefined\<rparr>"

definition default_options :: options where
  "default_options =
     \<lparr>options_serializer = None, options_deserializer = None, options_initializeWithValue = None\<rparr>"

text \<open>
  The stored text is malformed for a hook when its deserializer cannot parse it: the
  custom deserializer throws, or, by default, the text is not \<open>undefined\<close> and
  \<open>JSON.parse\<close> throws.
\<close>

definition deserialization_fault :: "hook \<Rightarrow> string \<Rightarrow> js_exn option" where
  "deserialization_fault h raw =
     (case options_deserializer (options h) of
        Some f \<Rightarrow> (case f raw of Inl e \<Rightarrow> Some e | Inr v \<Rightarrow> None)
      | None \<Rightarrow>
          if raw = ''undefined'' then None
          else (case JSON_parse raw of Inl e \<Rightarrow> Some e | Inr v \<Rightarrow> None))"

text \<open>
  The notification the hook broadcasts: \<open>new StorageEvent('local-storage', { key })\<close>.
\<close>

definition local_storage_event :: "hook \<Rightarrow> event" where
  "local_storage_event h = \<lparr>event_type = ''local-storage'', event_key = Some (key h)\<rparr>"

text \<open>
  The two hooks of the specification's scenarios, \<open>bind("theme", "light")\<close> and
  \<open>bind("count", () => 0)\<close> with the updater \<open>(prev) => prev + 1\<close> (on the numbers of the
  fragment; on anything else the sum is outside it), the state of a tab once a hook is
  mounted, the count scenario's three calls of the setter, and a hook whose custom
  deserializer accepts every text.
\<close>

definition theme_hook :: hook where
  "theme_hook = \<lparr>key = ''theme'', initialValue = Direct (JStr ''light''), options = default_options\<rparr>"

definition count_hook :: hook where
  "count_hook = \<lparr>key = ''count'', initialValue = Producer (\<lambda>_. JNum 0), options = default_options\<rparr>"

definition increment :: "js_value \<Rightarrow> js_exn + js_value" where
  "increment prev = (case prev of JNum n \<Rightarrow> Inr (JNum (n + 1)) | _ \<Rightarrow> Inr (JOther ''NaN''))"

definition mounted :: "hook \<Rightarrow> (string \<rightharpoonup> string) \<Rightarrow> state" where
  "mounted h content = snd (useLocalStorage h (browser content))"

definition three_increments :: state where
  "three_increments =
     snd (setValue count_hook (Updater increment)
       (snd (setValue count_hook (Updater increment)
         (snd (setValue count_hook (Updater increment) (mounted count_hook Map.empty))))))"

definition stub_hook :: hook where
  "stub_hook =
     \<lparr>key = ''theme'', initialValue = Direct (JStr ''light''),
      options = default_options\<lparr>options_deserializer := Some (\<lambda>raw. Inr (JStr ''deserialized''))\<rparr>\<rparr>"



section \<open>Properties of the router table\<close>

lemma router_branches:
  "concat (map (flattenRoutes [] []) router) =
     [([''login''], [AuthPage]),
      ([], [Navigate ''/customers'']),
      ([''customers''], [Root, CustomersPage]),
      ([''customers'', '':customerId''], [Root, CustomerPage])]"
  by (simp add: router_def joinPaths_def segments_def)

lemma match_login: "matchRoutes router ''/login'' = Some [AuthPage]"
  unfolding matchRoutes_def router_branches
  by (simp add: segments_def matchPath_def)

lemma match_root: "matchRoutes router ''/'' = Some [Navigate ''/customers'']"
  unfolding matchRoutes_def router_branches
  by (simp add: segments_def matchPath_def)

lemma match_customers: "matchRoutes router ''/customers'' = Some [Root, CustomersPage]"
  unfolding matchRoutes_def router_branches
  by (simp add: segments_def matchPath_def)

section \<open>Parsing what was printed\<close>

text \<open>
  \<open>JSON.parse (JSON.stringify v) = v\<close> for every JSON value \<open>v\<close>: first for numbers and
  strings, then for whole values by induction along the printer, with an arbitrary rest
  of input after the printed text.
\<close>

lemma length_skip_ws: "length (skip_ws cs) \<le> length cs"
  by (simp add: skip_ws_def length_dropWhile_le)



















lemma length_quote_char: "0 < length (quote_char c)"
  by (simp add: quote_char_def)






lemma skip_ws_start: "\<not> is_ws c \<Longrightarrow> skip_ws (c # cs) = c # cs"
  by (simp add: skip_ws_def)
























subsection \<open>A reader that succeeds consumes input\<close>

text \<open>
  So the length tests inside \<open>parse_elements\<close> and \<open>parse_members\<close> hold whenever they
  are reached with a result, and the readers compute what the grammar says.
\<close>

lemma cons_char_shorter:
  "cons_char c t p = Some (s, t', r) \<Longrightarrow> \<exists>s0 t0. p = Some (s0, t0, r)"
  by (cases p) (auto simp: cons_char_def)

lemma parse_chars_shorter: "parse_chars cs = Some (s, t, r) \<Longrightarrow> length r < length cs"
proof (induction cs arbitrary: s t r rule: parse_chars.induct)
  case 1
  then show ?case by simp
next
  case (2 c cs)
  show ?case
  proof (cases "c = CHR 0x22")
    case True
    then show ?thesis using "2.prems" by simp
  next
    case nq: False
    show ?thesis
    proof (cases "c = CHR 0x5C")
      case False
      then obtain s0 t0 where "parse_chars cs = Some (s0, t0, r)"
        using "2.prems" nq by (auto split: if_splits dest: cons_char_shorter)
      moreover have "\<not> (of_char c :: nat) < 32"
        using "2.prems" nq False by (auto split: if_splits)
      ultimately show ?thesis using "2.IH" nq False
        by auto
    next
      case True
      show ?thesis
      proof (cases cs)
        case Nil
        then show ?thesis using "2.prems" nq True by simp
      next
        case (Cons e cs1)
        show ?thesis
        proof (cases "e = CHR ''u''")
          case False
          then obtain d where d: "unescape e = Some d" and "cons_char d False (parse_chars cs1) = Some (s, t, r)"
            using "2.prems" nq True Cons by (auto split: option.splits)
          then obtain s0 t0 where "parse_chars cs1 = Some (s0, t0, r)"
            by (auto dest: cons_char_shorter)
          then have "length r < length cs1"
            using "2.IH" nq True Cons False d by auto
          then show ?thesis using Cons by simp
        next
          case u: True
          then obtain h1 h2 h3 h4 cs2 a b c' d where
            cs1: "cs1 = h1 # h2 # h3 # h4 # cs2"
            and hv: "hex_val h1 = Some a" "hex_val h2 = Some b" "hex_val h3 = Some c'" "hex_val h4 = Some d"
            and cc: "cons_char (char_of (16 * c' + d)) (a \<noteq> 0 \<or> b \<noteq> 0) (parse_chars cs2) = Some (s, t, r)"
            using "2.prems" nq True Cons by (auto split: list.splits option.splits)
          then obtain s0 t0 where "parse_chars cs2 = Some (s0, t0, r)"
            by (auto dest: cons_char_shorter)
          then have "length r < length cs2"
            using "2.IH" nq True Cons u cs1 hv by auto
          then show ?thesis using Cons cs1 by simp
        qed
      qed
    qed
  qed
qed

lemma strip_prefix_length: "strip_prefix p cs = Some r \<Longrightarrow> length cs = length p + length r"
  by (induction p cs rule: strip_prefix.induct) (auto split: if_splits)

lemma parse_literal_shorter:
  "parse_literal w v0 cs = Some (v, t, r) \<Longrightarrow> w \<noteq> [] \<Longrightarrow> length r < length cs"
  by (cases w) (auto simp: parse_literal_def dest: strip_prefix_length)

lemma parse_fraction_length: "parse_fraction cs = Some (b, r) \<Longrightarrow> length r \<le> length cs"
  by (auto simp: parse_fraction_def length_dropWhile_le le_SucI split: list.splits if_splits)

lemma parse_exponent_length: "parse_exponent cs = Some (b, r) \<Longrightarrow> length r \<le> length cs"
proof -
  assume a: "parse_exponent cs = Some (b, r)"
  show ?thesis
  proof (cases cs)
    case Nil
    then show ?thesis using a by (simp add: parse_exponent_def)
  next
    case (Cons c r0)
    show ?thesis
    proof (cases "c = CHR ''e'' \<or> c = CHR ''E''")
      case False
      then show ?thesis using a Cons by (auto simp: parse_exponent_def)
    next
      case True
      let ?r' = "case r0 of [] \<Rightarrow> r0 | s # r'' \<Rightarrow> if s = CHR ''+'' \<or> s = CHR ''-'' then r'' else r0"
      have l: "length ?r' \<le> length r0" by (cases r0) auto
      have "r = dropWhile is_digit ?r'"
        using a Cons True by (auto simp: parse_exponent_def Let_def split: if_splits)
      then have "length r \<le> length ?r'" by (simp add: length_dropWhile_le)
      then show ?thesis using l Cons by simp
    qed
  qed
qed

lemma parse_number_shorter: "parse_number cs = Some (v, t, r) \<Longrightarrow> length r < length cs"
proof -
  assume a: "parse_number cs = Some (v, t, r)"
  let ?neg = "cs \<noteq> [] \<and> hd cs = CHR ''-''"
  let ?r0 = "if ?neg then tl cs else cs"
  have l0: "length ?r0 \<le> length cs" by simp
  obtain d r' where r0: "?r0 = d # r'" and dig: "is_digit d"
    using a by (cases ?r0) (auto simp: parse_number_def Let_def split: if_splits)
  let ?r1 = "if d = CHR ''0'' then r' else dropWhile is_digit ?r0"
  have "length (dropWhile is_digit (d # r')) \<le> length r'"
    using dig by (simp add: length_dropWhile_le)
  then have l1: "length ?r1 < length ?r0" using r0 by auto
  have "\<exists>fr r2 ex. parse_fraction ?r1 = Some (fr, r2) \<and> parse_exponent r2 = Some (ex, r)"
  proof (cases "parse_fraction ?r1")
    case None
    then show ?thesis using a r0 dig
      by (simp add: parse_number_def Let_def del: dropWhile.simps takeWhile.simps split: if_splits)
  next
    case (Some p)
    obtain fr r2 where p: "p = (fr, r2)" by (cases p)
    show ?thesis
    proof (cases "parse_exponent r2")
      case None
      then show ?thesis using a r0 dig Some p
        by (simp add: parse_number_def Let_def del: dropWhile.simps takeWhile.simps split: if_splits)
    next
      case (Some q)
      obtain ex r3 where q: "q = (ex, r3)" by (cases q)
      have "r3 = r" using a r0 dig \<open>parse_fraction ?r1 = Some p\<close> p Some q
        by (simp add: parse_number_def Let_def del: dropWhile.simps takeWhile.simps split: if_splits)
      then show ?thesis using \<open>parse_fraction ?r1 = Some p\<close> p Some q by simp
    qed
  qed
  then obtain fr r2 ex where f: "parse_fraction ?r1 = Some (fr, r2)" and e: "parse_exponent r2 = Some (ex, r)"
    by blast
  show ?thesis
    using parse_fraction_length [OF f] parse_exponent_length [OF e] l1 l0 by linarith
qed

lemma skip_ws_cons_length: "skip_ws cs = c # r \<Longrightarrow> length r < length cs"
  using length_skip_ws [of cs] by simp

lemma parse_elements_shorter:
  "parse_elements cs = Some (vs, t, r) \<Longrightarrow> length r < length cs"
proof (induction "length cs" arbitrary: cs vs t r rule: less_induct)
  case less
  obtain v t0 r0 where pv: "parse_value cs = Some (v, t0, r0)" and g: "length r0 < length cs"
    using less.prems
    by (subst (asm) parse_elements.simps) (auto split: option.splits if_splits)
  obtain c r1 where sk: "skip_ws r0 = c # r1"
    using less.prems pv g
    by (subst (asm) parse_elements.simps) (auto split: list.splits)
  have l1: "length r1 < length r0" using sk by (rule skip_ws_cons_length)
  consider (close) "c = CHR '']''" | (comma) "c \<noteq> CHR '']''" "c = CHR '',''"
    using less.prems pv g sk
    by (subst (asm) parse_elements.simps) (auto split: if_splits)
  then show ?case
  proof cases
    case close
    then have "r = r1" using less.prems pv g sk
      by (subst (asm) parse_elements.simps) auto
    then show ?thesis using l1 g by simp
  next
    case comma
    then obtain vs' t' where "parse_elements r1 = Some (vs', t', r)"
      using less.prems pv g sk
      by (subst (asm) parse_elements.simps) auto
    then have "length r < length r1" using less.hyps [of r1] l1 g by simp
    then show ?thesis using l1 g by simp
  qed
qed

lemma parse_members_shorter:
  "parse_members cs = Some (kvs, t, r) \<Longrightarrow> length r < length cs"
proof (induction "length cs" arbitrary: cs kvs t r rule: less_induct)
  case less
  obtain q r0 where sk0: "skip_ws cs = q # r0" and q: "q = CHR 0x22"
    using less.prems
    by (subst (asm) parse_members.simps) (auto split: list.splits if_splits)
  have l0: "length r0 < length cs" using sk0 by (rule skip_ws_cons_length)
  obtain k tk r1 where pc: "parse_chars r0 = Some (k, tk, r1)" and g1: "length r1 < length r0"
    using less.prems sk0 q
    by (subst (asm) parse_members.simps) (auto split: option.splits if_splits)
  obtain c r2 where sk1: "skip_ws r1 = c # r2" and c: "c = CHR '':''"
    using less.prems sk0 q pc g1
    by (subst (asm) parse_members.simps) (auto split: list.splits if_splits)
  have l2: "length r2 < length r1" using sk1 by (rule skip_ws_cons_length)
  obtain v tv r3 where pv: "parse_value r2 = Some (v, tv, r3)" and g3: "length r3 < length r2"
    using less.prems sk0 q pc g1 sk1 c
    by (subst (asm) parse_members.simps) (auto split: option.splits if_splits)
  obtain d r4 where sk3: "skip_ws r3 = d # r4"
    using less.prems sk0 q pc g1 sk1 c pv g3
    by (subst (asm) parse_members.simps) (auto split: list.splits)
  have l4: "length r4 < length r3" using sk3 by (rule skip_ws_cons_length)
  consider (close) "d = CHR ''}''" | (comma) "d \<noteq> CHR ''}''" "d = CHR '',''"
    using less.prems sk0 q pc g1 sk1 c pv g3 sk3
    by (subst (asm) parse_members.simps) (auto split: if_splits)
  then show ?case
  proof cases
    case close
    then have "r = r4" using less.prems sk0 q pc g1 sk1 c pv g3 sk3
      by (subst (asm) parse_members.simps) auto
    then show ?thesis using l0 g1 l2 g3 l4 by simp
  next
    case comma
    then obtain kvs' t' where "parse_members r4 = Some (kvs', t', r)"
      using less.prems sk0 q pc g1 sk1 c pv g3 sk3
      by (subst (asm) parse_members.simps) auto
    then have "length r < length r4" using less.hyps [of r4] l0 g1 l2 g3 l4 by simp
    then show ?thesis using l0 g1 l2 g3 l4 by simp
  qed
qed

lemma parse_value_consumes:
  "parse_value cs = Some (v, t, r) \<Longrightarrow> length r < length cs"
proof -
  assume a: "parse_value cs = Some (v, t, r)"
  obtain c r0 where sk: "skip_ws cs = c # r0"
    using a by (cases "skip_ws cs") (auto simp: parse_value.simps [of cs])
  have l0: "length (c # r0) \<le> length cs" using length_skip_ws [of cs] sk by simp
  have l1: "length (skip_ws r0) \<le> length r0" by (rule length_skip_ws)
  consider (obj) "c = CHR ''{''" | (arr) "c \<noteq> CHR ''{''" "c = CHR ''[''"
    | (str) "c \<noteq> CHR ''{''" "c \<noteq> CHR ''[''" "c = CHR 0x22"
    | (lit) "c \<noteq> CHR ''{''" "c \<noteq> CHR ''[''" "c \<noteq> CHR 0x22" "c = CHR ''t'' \<or> c = CHR ''f'' \<or> c = CHR ''n''"
    | (num) "c \<noteq> CHR ''{''" "c \<noteq> CHR ''[''" "c \<noteq> CHR 0x22" "c \<noteq> CHR ''t''" "c \<noteq> CHR ''f''" "c \<noteq> CHR ''n''"
    by blast
  then show ?thesis
  proof cases
    case obj
    obtain d r1 where sk1: "skip_ws r0 = d # r1"
      using a sk obj by (cases "skip_ws r0") (auto simp: parse_value.simps [of cs])
    show ?thesis
    proof (cases "d = CHR ''}''")
      case True
      then have "r = r1" using a sk obj sk1 by (auto simp: parse_value.simps [of cs])
      then show ?thesis using l0 l1 sk1 by simp
    next
      case False
      then obtain kvs where "parse_members (skip_ws r0) = Some (kvs, t, r)"
        using a sk obj sk1 by (auto simp: parse_value.simps [of cs])
      then have "length r < length (skip_ws r0)" by (rule parse_members_shorter)
      then show ?thesis using l0 l1 by simp
    qed
  next
    case arr
    obtain d r1 where sk1: "skip_ws r0 = d # r1"
      using a sk arr by (cases "skip_ws r0") (auto simp: parse_value.simps [of cs])
    show ?thesis
    proof (cases "d = CHR '']''")
      case True
      then have "r = r1" using a sk arr sk1 by (auto simp: parse_value.simps [of cs])
      then show ?thesis using l0 l1 sk1 by simp
    next
      case False
      then obtain vs where "parse_elements (skip_ws r0) = Some (vs, t, r)"
        using a sk arr sk1 by (auto simp: parse_value.simps [of cs])
      then have "length r < length (skip_ws r0)" by (rule parse_elements_shorter)
      then show ?thesis using l0 l1 by simp
    qed
  next
    case str
    then obtain s where "parse_chars r0 = Some (s, t, r)"
      using a sk by (auto simp: parse_value.simps [of cs])
    then have "length r < length r0" by (rule parse_chars_shorter)
    then show ?thesis using l0 by simp
  next
    case lit
    then have "parse_literal ''true'' (JBool True) (c # r0) = Some (v, t, r)
             \<or> parse_literal ''false'' (JBool False) (c # r0) = Some (v, t, r)
             \<or> parse_literal ''null'' JNull (c # r0) = Some (v, t, r)"
      using a sk by (auto simp: parse_value.simps [of cs])
    then have "length r < length (c # r0)"
      using parse_literal_shorter by blast
    then show ?thesis using l0 by simp
  next
    case num
    then have "parse_number (c # r0) = Some (v, t, r)"
      using a sk by (auto simp: parse_value.simps [of cs])
    then have "length r < length (c # r0)" by (rule parse_number_shorter)
    then show ?thesis using l0 by simp
  qed
qed

section \<open>Properties of the hook's operations\<close>

lemmas action_defs = returns_def throws_def and_then_def try_catch_def lift_def IS_SERVER_def
  console_log_def window_localStorage_def getItem_def setItem_def removeItem_def
  setStoredValue_def useEventCallback_def

lemma readValue_server: "window s = None \<Longrightarrow> readValue h s = (Normal (resolve (initialValue h)), s)"
  by (simp add: readValue_def action_defs)

lemma readValue_blocked:
  "window s = Some st \<Longrightarrow> blocked st \<Longrightarrow>
   readValue h s = (Normal (resolve (initialValue h)),
                    s\<lparr>console := console s @ [(Console_warn, Error_reading (key h) SecurityError)]\<rparr>)"
  by (simp add: readValue_def action_defs)

lemma readValue_absent:
  "window s = Some st \<Longrightarrow> \<not> blocked st \<Longrightarrow> items st (key h) = None \<Longrightarrow>
   readValue h s = (Normal (resolve (initialValue h)), s)"
  by (simp add: readValue_def action_defs)

lemma readValue_present:
  "window s = Some st \<Longrightarrow> \<not> blocked st \<Longrightarrow> items st (key h) = Some raw \<Longrightarrow> raw \<noteq> [] \<Longrightarrow>
   readValue h s =
     try_catch (deserializer h raw)
       (\<lambda>error. and_then (console_log Console_warn (Error_reading (key h) error))
                   (\<lambda>_. returns (resolve (initialValue h)))) s"
  by (simp add: readValue_def action_defs)

lemma readValue_returns: "\<exists>v s'. readValue h s = (Normal v, s')"
  by (auto simp: readValue_def deserializer_def action_defs Let_def
      split: option.splits sum.splits if_splits)

lemma readValue_frame:
  "readValue h s = (r, s') \<Longrightarrow> s' = s\<lparr>console := console s'\<rparr>"
  by (auto simp: readValue_def deserializer_def action_defs Let_def
      split: option.splits sum.splits if_splits)

lemma readValue_storedValue:
  "readValue h (s\<lparr>storedValue := x\<rparr>) =
     (fst (readValue h s), (snd (readValue h s))\<lparr>storedValue := x\<rparr>)"
  by (auto simp: readValue_def deserializer_def action_defs Let_def
      split: option.splits sum.splits if_splits)

lemma serializer_pure:
  "\<exists>r. \<forall>s. serializer h v s = (r, s)"
  by (auto simp: serializer_def action_defs split: option.splits sum.splits)

lemma serializer_state: "serializer h v s = (r, s') \<Longrightarrow> s' = s \<and> serializer h v s2 = (r, s2)"
  using serializer_pure [of h v] by (metis prod.inject)

lemma handleStorageChange_frame:
  "handleStorageChange h ev s = (r, s') \<Longrightarrow>
     r = Normal () \<and> s' = s\<lparr>console := console s', storedValue := storedValue s'\<rparr>"
proof -
  assume a: "handleStorageChange h ev s = (r, s')"
  obtain v s1 where rv: "readValue h s = (Normal v, s1)" using readValue_returns by blast
  then have s1: "s1 = s\<lparr>console := console s1\<rparr>" by (rule readValue_frame)
  show ?thesis
  proof (cases "case event_key ev of None \<Rightarrow> False | Some k \<Rightarrow> k \<noteq> [] \<and> k \<noteq> key h")
    case True
    then show ?thesis using a by (auto simp: handleStorageChange_def action_defs)
  next
    case False
    then have "s' = s1\<lparr>storedValue := v\<rparr>" "r = Normal ()"
      using a rv by (auto simp: handleStorageChange_def action_defs)
    then show ?thesis using s1 by (metis (no_types) state.surjective state.update_convs(3,6) state.select_convs)
  qed
qed

lemma newValue_frame:
  "newValue h action s = (r, s1) \<Longrightarrow> s1 = s\<lparr>console := console s1\<rparr>"
proof (cases action)
  case (Value v)
  then show "newValue h action s = (r, s1) \<Longrightarrow> s1 = s\<lparr>console := console s1\<rparr>"
    by (auto simp: newValue_def action_defs)
next
  case (Updater f)
  obtain v s' where rv: "readValue h s = (Normal v, s')" using readValue_returns by blast
  then have "s' = s\<lparr>console := console s'\<rparr>" by (rule readValue_frame)
  then show "newValue h action s = (r, s1) \<Longrightarrow> s1 = s\<lparr>console := console s1\<rparr>"
    using rv Updater by (auto simp: newValue_def action_defs split: sum.splits)
qed

lemma newValue_fields:
  assumes "newValue h action s = (r, s1)"
  shows "window s1 = window s" "committed s1 = committed s" "listeners s1 = listeners s"
    "dispatched s1 = dispatched s" "storedValue s1 = storedValue s"
proof -
  have e: "s1 = s\<lparr>console := console s1\<rparr>" using assms by (rule newValue_frame)
  show "window s1 = window s" by (subst e) simp
  show "committed s1 = committed s" by (subst e) simp
  show "listeners s1 = listeners s" by (subst e) simp
  show "dispatched s1 = dispatched s" by (subst e) simp
  show "storedValue s1 = storedValue s" by (subst e) simp
qed

lemma dispatchEvent_normal:
  "window s \<noteq> None \<Longrightarrow> \<exists>s'. dispatchEvent h ev s = (Normal (), s')"
  by (simp add: dispatchEvent_def Let_def)

lemma setValue_success:
  assumes "committed s" and "window s = Some st" and "\<not> blocked st"
    and nv: "newValue h action s = (Normal v, s1)"
    and ser: "serializer h v s1 = (Normal t, s1)"
    and ok: "\<not> refuses st (items st) (key h) (DOMString t)"
  shows "setValue h action s =
           dispatchEvent h (local_storage_event h)
             (s1\<lparr>window := Some (st\<lparr>items := (items st)(key h \<mapsto> DOMString t)\<rparr>),
                 storedValue := v\<rparr>)"
proof -
  let ?s2 = "s1\<lparr>window := Some (st\<lparr>items := (items st)(key h \<mapsto> DOMString t)\<rparr>), storedValue := v\<rparr>"
  have w1: "window s1 = Some st" and c1: "committed s1"
    using newValue_fields [OF nv] assms(1,2) by simp_all
  obtain s3 where d: "dispatchEvent h (local_storage_event h) ?s2 = (Normal (), s3)"
    using dispatchEvent_normal [of ?s2] by auto
  show ?thesis
    using assms(1-3) nv ser ok w1 d
    by (simp add: setValue_def action_defs local_storage_event_def)
qed

lemma setValue_fault:
  assumes "committed s" and "window s = Some st" and "\<not> blocked st"
    and nv: "newValue h action s = (Normal v, s1)"
    and fault: "(\<exists>e. serializer h v s1 = (Throw e, s1)) \<or>
                (\<exists>t. serializer h v s1 = (Normal t, s1) \<and> refuses st (items st) (key h) (DOMString t))"
  shows "\<exists>e. setValue h action s =
           (Normal (), s1\<lparr>console := console s1 @ [(Console_warn, Error_setting (key h) e)]\<rparr>)"
proof -
  have w1: "window s1 = Some st"
    using newValue_fields [OF nv] assms(2) by simp
  from fault show ?thesis
  proof
    assume "\<exists>e. serializer h v s1 = (Throw e, s1)"
    then obtain e where "serializer h v s1 = (Throw e, s1)" by blast
    then have "setValue h action s =
           (Normal (), s1\<lparr>console := console s1 @ [(Console_warn, Error_setting (key h) e)]\<rparr>)"
      using assms(1-3) nv w1 by (simp add: setValue_def action_defs)
    then show ?thesis by blast
  next
    assume "\<exists>t. serializer h v s1 = (Normal t, s1) \<and> refuses st (items st) (key h) (DOMString t)"
    then obtain t where "serializer h v s1 = (Normal t, s1)" "refuses st (items st) (key h) (DOMString t)"
      by blast
    then have "setValue h action s =
           (Normal (), s1\<lparr>console := console s1 @ [(Console_warn, Error_setting (key h) QuotaExceededError)]\<rparr>)"
      using assms(1-3) nv w1 by (simp add: setValue_def action_defs)
    then show ?thesis by blast
  qed
qed

lemma dispatchEvent_fields:
  assumes "dispatchEvent h ev s = (r, s')"
  shows "window s' = window s" "committed s' = committed s" "listeners s' = listeners s"
proof -
  let ?s1 = "s\<lparr>dispatched := dispatched s @ [ev]\<rparr>"
  obtain r2 s2 where hs: "handleStorageChange h ev ?s1 = (r2, s2)" by (cases "handleStorageChange h ev ?s1")
  then have e: "s2 = ?s1\<lparr>console := console s2, storedValue := storedValue s2\<rparr>"
    using handleStorageChange_frame by blast
  have w2: "window s2 = window s" by (subst e) simp
  have c2: "committed s2 = committed s" by (subst e) simp
  have l2: "listeners s2 = listeners s" by (subst e) simp
  have "s' = s \<or> s' = ?s1 \<or> s' = s2"
    using assms hs by (auto simp: dispatchEvent_def Let_def split: if_splits)
  then show "window s' = window s" "committed s' = committed s" "listeners s' = listeners s"
    using w2 c2 l2 by auto
qed






lemma removeValue_server:
  "committed s \<Longrightarrow> window s = None \<Longrightarrow>
   removeValue h s =
     (Throw ReferenceError, s\<lparr>console := console s @ [(Console_warn, Tried_removing (key h))]\<rparr>)"
  by (simp add: removeValue_def action_defs)

lemma removeValue_blocked:
  "committed s \<Longrightarrow> window s = Some st \<Longrightarrow> blocked st \<Longrightarrow>
   removeValue h s = (Throw SecurityError, s)"
  by (simp add: removeValue_def action_defs)

lemma removeValue_browser:
  assumes "committed s" and "window s = Some st" and "\<not> blocked st"
  shows "removeValue h s =
     (Normal (),
      s\<lparr>window := Some (st\<lparr>items := (items st)(key h := None)\<rparr>),
        storedValue := resolve (initialValue h),
        dispatched := dispatched s @ [\<lparr>event_type = ''local-storage'', event_key = Some (key h)\<rparr>]\<rparr>)"
proof -
  let ?ev = "\<lparr>event_type = ''local-storage'', event_key = Some (key h)\<rparr>"
  let ?st = "st\<lparr>items := (items st)(key h := None)\<rparr>"
  let ?s3 = "s\<lparr>window := Some ?st, storedValue := resolve (initialValue h),
               dispatched := dispatched s @ [?ev]\<rparr>"
  have rd: "readValue h ?s3 = (Normal (resolve (initialValue h)), ?s3)"
    by (rule readValue_absent [of _ ?st]) (simp_all add: assms)
  have "dispatchEvent h ?ev (s\<lparr>window := Some ?st, storedValue := resolve (initialValue h)\<rparr>)
          = (Normal (), ?s3)"
    using rd by (simp add: dispatchEvent_def handleStorageChange_def action_defs Let_def)
  then show ?thesis using assms by (simp add: removeValue_def action_defs)
qed

lemma setValue_fields:
  assumes "committed s"
  shows "committed (snd (setValue h a s))
         \<and> (case window s of
               None \<Rightarrow> window (snd (setValue h a s)) = None
             | Some st \<Rightarrow> \<exists>st'. window (snd (setValue h a s)) = Some st' \<and> blocked st' = blocked st)"
proof -
  let ?s0 = "if window s = None
             then s\<lparr>console := console s @ [(Console_warn, Tried_setting (key h))]\<rparr> else s"
  let ?ev = "\<lparr>event_type = ''local-storage'', event_key = Some (key h)\<rparr>"
  obtain rn s1 where nv: "newValue h a ?s0 = (rn, s1)" by (cases "newValue h a ?s0")
  have f1: "window s1 = window s" "committed s1"
    using newValue_fields [OF nv] assms by (simp_all split: if_splits)
  show ?thesis
  proof (cases rn)
    case (Throw e)
    then show ?thesis using nv f1 assms
      by (auto simp: setValue_def action_defs split: option.splits)
  next
    case (Normal v)
    obtain rs where ser: "\<forall>s. serializer h v s = (rs, s)" using serializer_pure by blast
    show ?thesis
    proof (cases "window s")
      case None
      then show ?thesis using nv f1 assms Normal
        by (simp add: setValue_def action_defs)
    next
      case (Some st)
      show ?thesis
      proof (cases "blocked st \<or> (\<exists>e. rs = Throw e)
                    \<or> (\<exists>t. rs = Normal t \<and> refuses st (items st) (key h) (DOMString t))")
        case True
        then show ?thesis using nv f1 assms Normal Some ser
          by (auto simp: setValue_def action_defs)
      next
        case False
        then obtain t where t: "rs = Normal t" "\<not> refuses st (items st) (key h) (DOMString t)"
          "\<not> blocked st"
          by (cases rs) auto
        let ?s2 = "s1\<lparr>window := Some (st\<lparr>items := (items st)(key h \<mapsto> DOMString t)\<rparr>), storedValue := v\<rparr>"
        have "setValue h a s = dispatchEvent h ?ev ?s2"
          using setValue_success [of s st h a v s1 t] assms Some t nv Normal ser
          by (simp add: local_storage_event_def)
        moreover obtain r3 s3 where d: "dispatchEvent h ?ev ?s2 = (r3, s3)"
          by (cases "dispatchEvent h ?ev ?s2")
        moreover have "window s3 = window ?s2" "committed s3 = committed ?s2"
          using dispatchEvent_fields [OF d] by simp_all
        ultimately show ?thesis using Some f1 by simp
      qed
    qed
  qed
qed

lemmas hook_defs = readValue_def deserializer_def serializer_def newValue_def setValue_def
  removeValue_def handleStorageChange_def dispatchEvent_def useEventListener_def
  useLocalStorage_def render_def commit_def initializeWithValue_def resolve_def
  browser_def open_store_def server_def default_options_def action_defs Let_def

lemma mounted_theme:
  "mounted theme_hook Map.empty =
     \<lparr>window = Some \<lparr>items = Map.empty, blocked = False, refuses = (\<lambda>_ _ _. False)\<rparr>,
      listeners = [(Window, ''storage''), (Window, ''local-storage'')],
      console = [], dispatched = [], committed = True, storedValue = JStr ''light''\<rparr>"
  by (simp add: mounted_def theme_hook_def hook_defs)

lemma mounted_count:
  "mounted count_hook Map.empty =
     \<lparr>window = Some \<lparr>items = Map.empty, blocked = False, refuses = (\<lambda>_ _ _. False)\<rparr>,
      listeners = [(Window, ''storage''), (Window, ''local-storage'')],
      console = [], dispatched = [], committed = True, storedValue = JNum 0\<rparr>"
  by (simp add: mounted_def count_hook_def hook_defs)

lemma three_increments_value: "storedValue three_increments = JNum 3"
  by code_simp

lemma three_increments_text:
  "map_option (\<lambda>st. items st ''count'') (window three_increments) = Some (Some ''3'')"
  by code_simp

section \<open>The claims\<close>

text \<open>
  C8. The table maps \<open>/login\<close> to the auth page, and navigating to \<open>/\<close> renders the page
  that navigating to \<open>/customers\<close> renders: the customers list under the shared layout,
  reached from \<open>/\<close> through one client-side redirect.
\<close>

theorem router_login_and_root_redirect:
  "matchRoutes router ''/login'' = Some [AuthPage]
   \<and> rendered (Suc n) router ''/login'' = Some [AuthPage]
   \<and> matchRoutes router ''/'' = Some [Navigate ''/customers'']
   \<and> rendered (Suc (Suc n)) router ''/'' = rendered (Suc n) router ''/customers''
   \<and> rendered (Suc n) router ''/customers'' = Some [Root, CustomersPage]"
  by (simp add: match_login match_root match_customers)



text \<open>
  C2, as the code has it. When the stored text is malformed for the hook, the read returns
  the resolved initial value and nothing is thrown. What is logged depends on where the
  fault is caught: the default deserializer catches the parse error itself and reports it
  with \<open>console.error\<close>; a fault thrown by a custom deserializer reaches the catch of
  \<open>readValue\<close> and is reported with \<open>console.warn\<close>; and the empty text never reaches the
  deserializer, so nothing is logged for it.
\<close>

theorem readValue_malformed:
  assumes "window s = Some st" and "\<not> blocked st" and "items st (key h) = Some raw"
    and "deserialization_fault h raw = Some e"
  shows "readValue h s =
           (Normal (resolve (initialValue h)),
            if raw = [] then s
            else s\<lparr>console := console s @
                     [if options_deserializer (options h) = None
                      then (Console_error, Error_parsing_JSON e)
                      else (Console_warn, Error_reading (key h) e)]\<rparr>)"
proof (cases "raw = []")
  case True
  then show ?thesis using assms by (simp add: readValue_def action_defs)
next
  case False
  show ?thesis
  proof (cases "options_deserializer (options h)")
    case None
    then have "raw \<noteq> ''undefined''" "JSON_parse raw = Inl e"
      using assms(4) by (auto simp: deserialization_fault_def split: if_splits sum.splits)
    then show ?thesis using assms(1-3) False None
      by (simp add: readValue_present deserializer_def action_defs)
  next
    case (Some f)
    then have "f raw = Inl e"
      using assms(4) by (auto simp: deserialization_fault_def split: sum.splits)
    then show ?thesis using assms(1-3) False Some
      by (simp add: readValue_present deserializer_def action_defs)
  qed
qed

text \<open>
  The text \<open>{\<close> under \<open>theme\<close>: the read yields \<open>"light"\<close> and the console holds one
  error-level entry.
\<close>

theorem readValue_malformed_witness:
  "window (browser [''theme'' \<mapsto> ''{'']) = Some (open_store [''theme'' \<mapsto> ''{''])
   \<and> \<not> blocked (open_store [''theme'' \<mapsto> ''{''])
   \<and> items (open_store [''theme'' \<mapsto> ''{'']) (key theme_hook) = Some ''{''
   \<and> deserialization_fault theme_hook ''{'' = Some SyntaxError
   \<and> readValue theme_hook (browser [''theme'' \<mapsto> ''{'']) =
       (Normal (JStr ''light''),
        (browser [''theme'' \<mapsto> ''{''])\<lparr>console := [(Console_error, Error_parsing_JSON SyntaxError)]\<rparr>)"
proof -
  have a: "window (browser [''theme'' \<mapsto> ''{'']) = Some (open_store [''theme'' \<mapsto> ''{''])"
    by (simp add: browser_def open_store_def)
  have b: "\<not> blocked (open_store [''theme'' \<mapsto> ''{''])" by (simp add: open_store_def)
  have c: "items (open_store [''theme'' \<mapsto> ''{'']) (key theme_hook) = Some ''{''"
    by (simp add: open_store_def theme_hook_def)
  have d: "deserialization_fault theme_hook ''{'' = Some SyntaxError" by code_simp
  show ?thesis
    using a b c d readValue_malformed [OF a b c d]
    by (simp add: theme_hook_def default_options_def resolve_def browser_def)
qed

text \<open>
  Against C2 as stated (a warning is logged): with the malformed text \<open>{\<close> the console
  holds a single entry, printed by \<open>console.error\<close>; with the empty text, which
  \<open>JSON.parse\<close> rejects as well, the console stays empty.
\<close>

theorem malformed_text_logs_no_warning:
  "deserialization_fault theme_hook ''{'' = Some SyntaxError
   \<and> fst (readValue theme_hook (browser [''theme'' \<mapsto> ''{''])) = Normal (JStr ''light'')
   \<and> console (snd (readValue theme_hook (browser [''theme'' \<mapsto> ''{''])))
       = [(Console_error, Error_parsing_JSON SyntaxError)]
   \<and> deserialization_fault theme_hook [] = Some SyntaxError
   \<and> fst (readValue theme_hook (browser [''theme'' \<mapsto> []])) = Normal (JStr ''light'')
   \<and> console (snd (readValue theme_hook (browser [''theme'' \<mapsto> []]))) = []"
  by code_simp

text \<open>
  C3. Outside a browser context \<open>removeValue\<close> (called once the hook's callbacks are in
  place) prints its warning and then throws: \<open>window.localStorage.removeItem\<close> is not
  guarded, and the ReferenceError reaches the caller. The setter, in the same context,
  catches it and returns normally. Before the callbacks are in place (a render on a
  server, where no effect runs) the call throws as well, from \<open>useEventCallback\<close>.
\<close>

theorem removeValue_outside_browser_throws:
  "removeValue theme_hook (server\<lparr>committed := True\<rparr>) =
     (Throw ReferenceError,
      server\<lparr>committed := True, console := [(Console_warn, Tried_removing ''theme'')]\<rparr>)
   \<and> fst (setValue theme_hook (Value (JStr ''dark'')) (server\<lparr>committed := True\<rparr>)) = Normal ()
   \<and> fst (removeValue theme_hook server)
       = Throw (Thrown ''Cannot call an event handler while rendering.'')"
  by (simp add: theme_hook_def hook_defs)

text \<open>
  C4. A mounted hook's setter, called with a function \<open>f\<close>, applies \<open>f\<close> to the value
  \<open>readValue\<close> has just read from the store: where that read yields \<open>prev\<close>, \<open>f prev\<close> is
  \<open>v\<close> and the store takes the serialized \<open>v\<close>, the store then holds that text under the
  key, the in-memory state is set to \<open>v\<close> before the notification is dispatched, and the
  outcome is the same whatever the in-memory state was. In the count scenario
  (\<open>() => 0\<close>, nothing stored, three calls with \<open>(prev) => prev + 1\<close>) the final in-memory
  value is \<open>3\<close> and the stored text is \<open>3\<close>.
\<close>

theorem setValue_updater_reads_store:
  assumes "committed s" and "window s = Some st" and "\<not> blocked st"
    and "readValue h s = (Normal prev, s1)" and "f prev = Inr v"
    and "serializer h v s1 = (Normal t, s1)"
    and "\<not> refuses st (items st) (key h) (DOMString t)"
  shows "setValue h (Updater f) s =
           dispatchEvent h \<lparr>event_type = ''local-storage'', event_key = Some (key h)\<rparr>
             (s1\<lparr>window := Some (st\<lparr>items := (items st)(key h \<mapsto> DOMString t)\<rparr>),
                 storedValue := v\<rparr>)
         \<and> window (snd (setValue h (Updater f) s))
             = Some (st\<lparr>items := (items st)(key h \<mapsto> DOMString t)\<rparr>)
         \<and> setValue h (Updater f) (s\<lparr>storedValue := stale\<rparr>) = setValue h (Updater f) s
         \<and> storedValue three_increments = JNum 3
         \<and> map_option (\<lambda>st. items st ''count'') (window three_increments) = Some (Some ''3'')"
proof -
  let ?ev = "\<lparr>event_type = ''local-storage'', event_key = Some (key h)\<rparr>"
  let ?st = "st\<lparr>items := (items st)(key h \<mapsto> DOMString t)\<rparr>"
  have nv: "newValue h (Updater f) s = (Normal v, s1)"
    using assms(4,5) by (simp add: newValue_def action_defs)
  have a: "setValue h (Updater f) s = dispatchEvent h ?ev (s1\<lparr>window := Some ?st, storedValue := v\<rparr>)"
    using setValue_success [OF assms(1-3) nv assms(6,7)] by (simp add: local_storage_event_def)
  have b: "window (snd (setValue h (Updater f) s)) = Some ?st"
    using dispatchEvent_fields(1) [of h ?ev "s1\<lparr>window := Some ?st, storedValue := v\<rparr>"] a
    by (metis prod.collapse state.select_convs(1) state.surjective state.update_convs(1,6))
  have nv': "newValue h (Updater f) (s\<lparr>storedValue := stale\<rparr>) = (Normal v, s1\<lparr>storedValue := stale\<rparr>)"
    using assms(4,5) by (simp add: newValue_def action_defs readValue_storedValue)
  have ser': "serializer h v (s1\<lparr>storedValue := stale\<rparr>) = (Normal t, s1\<lparr>storedValue := stale\<rparr>)"
    using serializer_state [OF assms(6)] by blast
  have c: "setValue h (Updater f) (s\<lparr>storedValue := stale\<rparr>)
             = dispatchEvent h ?ev (s1\<lparr>storedValue := stale, window := Some ?st, storedValue := v\<rparr>)"
    using setValue_success [OF _ _ assms(3) nv' ser' assms(7)] assms(1,2)
    by (simp add: local_storage_event_def)
  show ?thesis using a b c three_increments_value three_increments_text by simp
qed

text \<open>
  The first of the three calls: \<open>0\<close> is read, \<open>1\<close> is stored, also from a stale state.
\<close>

theorem setValue_updater_reads_store_witness:
  "committed (mounted count_hook Map.empty)
   \<and> window (mounted count_hook Map.empty) = Some (open_store Map.empty)
   \<and> \<not> blocked (open_store Map.empty)
   \<and> readValue count_hook (mounted count_hook Map.empty)
       = (Normal (JNum 0), mounted count_hook Map.empty)
   \<and> increment (JNum 0) = Inr (JNum 1)
   \<and> serializer count_hook (JNum 1) (mounted count_hook Map.empty)
       = (Normal (Some ''1''), mounted count_hook Map.empty)
   \<and> \<not> refuses (open_store Map.empty) (items (open_store Map.empty)) (key count_hook)
         (DOMString (Some ''1''))
   \<and> window (snd (setValue count_hook (Updater increment) (mounted count_hook Map.empty)))
       = Some (open_store [''count'' \<mapsto> ''1''])
   \<and> setValue count_hook (Updater increment)
         ((mounted count_hook Map.empty)\<lparr>storedValue := JStr ''stale''\<rparr>)
       = setValue count_hook (Updater increment) (mounted count_hook Map.empty)"
proof -
  have a: "committed (mounted count_hook Map.empty)" by (simp add: mounted_count)
  have b: "window (mounted count_hook Map.empty) = Some (open_store Map.empty)"
    by (simp add: mounted_count open_store_def)
  have c: "\<not> blocked (open_store Map.empty)" by (simp add: open_store_def)
  have d: "readValue count_hook (mounted count_hook Map.empty)
             = (Normal (JNum 0), mounted count_hook Map.empty)"
  proof -
    have i: "resolve (initialValue count_hook) = JNum 0"
      by (simp add: count_hook_def resolve_def)
    have "readValue count_hook (mounted count_hook Map.empty)
            = (Normal (resolve (initialValue count_hook)), mounted count_hook Map.empty)"
      by (rule readValue_absent [OF b c]) (simp add: open_store_def)
    then show ?thesis by (simp only: i)
  qed
  have e: "increment (JNum 0) = Inr (JNum 1)" by (simp add: increment_def)
  have t: "show_int 1 = ''1''" by code_simp
  have f: "serializer count_hook (JNum 1) (mounted count_hook Map.empty)
             = (Normal (Some ''1''), mounted count_hook Map.empty)"
    by (simp add: serializer_def count_hook_def default_options_def returns_def t)
  have g: "\<not> refuses (open_store Map.empty) (items (open_store Map.empty)) (key count_hook)
             (DOMString (Some ''1''))"
    by (simp add: open_store_def)
  note w = setValue_updater_reads_store
    [where f = increment and stale = "JStr ''stale''", OF a b c d e f g]
  have st: "(open_store Map.empty)\<lparr>items := (items (open_store Map.empty))
              (key count_hook \<mapsto> DOMString (Some ''1''))\<rparr> = open_store [''count'' \<mapsto> ''1'']"
    by (simp add: open_store_def count_hook_def DOMString_def)
  have w2: "window (snd (setValue count_hook (Updater increment) (mounted count_hook Map.empty)))
              = Some (open_store [''count'' \<mapsto> ''1''])"
    using w st by metis
  have w3: "setValue count_hook (Updater increment)
              ((mounted count_hook Map.empty)\<lparr>storedValue := JStr ''stale''\<rparr>)
            = setValue count_hook (Updater increment) (mounted count_hook Map.empty)"
    using w by blast
  show ?thesis using a b c d e f g w2 w3 by blast
qed

text \<open>
  C5, as the code has it. On a notification the hook re-reads the store and sets its
  in-memory state to what it read exactly when the notification's key is absent, empty,
  or equal to the hook's key; a notification with any other key leaves the state as it
  was. The read itself always returns normally.
\<close>

theorem handleStorageChange_guard:
  "\<exists>v s'. readValue h s = (Normal v, s') \<and>
     handleStorageChange h ev s =
       (if event_key ev = None \<or> event_key ev = Some [] \<or> event_key ev = Some (key h)
        then (Normal (), s'\<lparr>storedValue := v\<rparr>)
        else (Normal (), s))"
proof -
  obtain v s' where r: "readValue h s = (Normal v, s')" using readValue_returns by blast
  then show ?thesis
    by (auto simp: handleStorageChange_def action_defs split: option.splits)
qed

text \<open>
  Against C5 as stated (a different key leaves the state unchanged): a notification for
  the empty key, which is a key of the store like any other, makes the hook bound to
  \<open>theme\<close> re-read and replace its state.
\<close>

theorem empty_key_notification_refreshes:
  "event_key \<lparr>event_type = ''storage'', event_key = Some []\<rparr> \<noteq> None
   \<and> event_key \<lparr>event_type = ''storage'', event_key = Some []\<rparr> \<noteq> Some (key theme_hook)
   \<and> storedValue ((browser [''theme'' \<mapsto> ''true''])\<lparr>storedValue := JStr ''light''\<rparr>) = JStr ''light''
   \<and> storedValue (snd (handleStorageChange theme_hook
          \<lparr>event_type = ''storage'', event_key = Some []\<rparr>
          ((browser [''theme'' \<mapsto> ''true''])\<lparr>storedValue := JStr ''light''\<rparr>))) = JBool True"
  by code_simp

text \<open>
  C6. For a mounted hook, after \<open>setValue v\<close> and then \<open>removeValue\<close>, a read of the key
  yields the resolved initial value; and in a browser tab whose store is accessible,
  \<open>removeValue\<close> returns normally, the key is gone from the store and the in-memory
  state is the resolved initial value.
\<close>

theorem set_remove_read:
  assumes "committed s"
  shows "fst (readValue h (snd (removeValue h (snd (setValue h (Value v) s)))))
           = Normal (resolve (initialValue h))
         \<and> (\<forall>st. window s = Some st \<and> \<not> blocked st \<longrightarrow>
               fst (removeValue h (snd (setValue h (Value v) s))) = Normal ()
               \<and> storedValue (snd (removeValue h (snd (setValue h (Value v) s))))
                   = resolve (initialValue h)
               \<and> (\<exists>st'. window (snd (removeValue h (snd (setValue h (Value v) s)))) = Some st'
                     \<and> items st' (key h) = None))"
proof -
  let ?s1 = "snd (setValue h (Value v) s)"
  have c1: "committed ?s1" using setValue_fields [OF assms] by blast
  show ?thesis
  proof (cases "window s")
    case None
    then have w1: "window ?s1 = None" using setValue_fields [OF assms, of h "Value v"] by simp
    show ?thesis using None removeValue_server [OF c1 w1] by (simp add: readValue_server w1)
  next
    case (Some st)
    then obtain st1 where w1: "window ?s1 = Some st1" "blocked st1 = blocked st"
      using setValue_fields [OF assms, of h "Value v"] by auto
    show ?thesis
    proof (cases "blocked st")
      case True
      then show ?thesis using Some w1 removeValue_blocked [OF c1 w1(1), of h]
        by (simp add: readValue_blocked [OF w1(1)])
    next
      case False
      let ?s3 = "snd (removeValue h ?s1)"
      have rm: "removeValue h ?s1 =
        (Normal (),
         ?s1\<lparr>window := Some (st1\<lparr>items := (items st1)(key h := None)\<rparr>),
           storedValue := resolve (initialValue h),
           dispatched := dispatched ?s1 @ [\<lparr>event_type = ''local-storage'', event_key = Some (key h)\<rparr>]\<rparr>)"
        using removeValue_browser [OF c1 w1(1)] False w1(2) by simp
      have "readValue h ?s3 = (Normal (resolve (initialValue h)), ?s3)"
        by (rule readValue_absent [of _ "st1\<lparr>items := (items st1)(key h := None)\<rparr>"])
          (simp_all add: rm False w1)
      then show ?thesis using rm Some False by simp
    qed
  qed
qed

text \<open>
  The theme hook: \<open>"dark"\<close> is set, then removed; the read yields \<open>"light"\<close>.
\<close>

theorem set_remove_read_witness:
  "committed (mounted theme_hook Map.empty)
   \<and> window (mounted theme_hook Map.empty) = Some (open_store Map.empty)
   \<and> \<not> blocked (open_store Map.empty)
   \<and> fst (readValue theme_hook (snd (removeValue theme_hook
         (snd (setValue theme_hook (Value (JStr ''dark'')) (mounted theme_hook Map.empty))))))
       = Normal (JStr ''light'')
   \<and> fst (removeValue theme_hook
         (snd (setValue theme_hook (Value (JStr ''dark'')) (mounted theme_hook Map.empty))))
       = Normal ()
   \<and> storedValue (snd (removeValue theme_hook
         (snd (setValue theme_hook (Value (JStr ''dark'')) (mounted theme_hook Map.empty)))))
       = JStr ''light''"
proof -
  have a: "committed (mounted theme_hook Map.empty)" by (simp add: mounted_theme)
  have b: "window (mounted theme_hook Map.empty) = Some (open_store Map.empty)"
    by (simp add: mounted_theme open_store_def)
  have c: "\<not> blocked (open_store Map.empty)" by (simp add: open_store_def)
  have i: "resolve (initialValue theme_hook) = JStr ''light''"
    by (simp add: theme_hook_def resolve_def)
  show ?thesis
    using a b c set_remove_read [OF a, of theme_hook "JStr ''dark''"] by (simp add: i)
qed

text \<open>
  C7, as the code has it. A ref whose current value is null does not stop the
  subscription: the target falls back to the window, and the listener is attached there
  (where there is no window, the fallback throws). The utility attaches no listener only
  when the target it resolved has no \<open>addEventListener\<close>.
\<close>

theorem useEventListener_unresolved_ref:
  "useEventListener eventName (Some None) s =
     (if window s = None then (Throw ReferenceError, s)
      else (Normal (Some (Window, eventName)), s\<lparr>listeners := listeners s @ [(Window, eventName)]\<rparr>))
   \<and> useEventListener eventName (Some (Some target)) s =
     (if has_addEventListener target
      then (Normal (Some (target, eventName)), s\<lparr>listeners := listeners s @ [(target, eventName)]\<rparr>)
      else (Normal None, s))"
  by (simp add: useEventListener_def action_defs)

text \<open>
  Against C7 as stated (no listener is attached): with a ref that is not yet mounted, a
  \<open>click\<close> listener ends up on the window.
\<close>

theorem null_ref_listens_on_window:
  "useEventListener ''click'' (Some None) (browser Map.empty) =
     (Normal (Some (Window, ''click'')), (browser Map.empty)\<lparr>listeners := [(Window, ''click'')]\<rparr>)"
  by (simp add: hook_defs)

text \<open>
  C9. When the text stored under the key is empty, the read returns the resolved initial
  value and leaves the state as it was, whatever the deserializer is: the empty text is
  treated as an absent entry and is not handed to the deserializer.
\<close>

theorem readValue_empty_text:
  assumes "window s = Some st" and "\<not> blocked st" and "items st (key h) = Some []"
  shows "readValue h s = (Normal (resolve (initialValue h)), s)"
  using assms by (simp add: readValue_def action_defs)

text \<open>
  A hook whose deserializer would accept the empty text still reads the initial value.
\<close>

theorem readValue_empty_text_witness:
  "window (browser [''theme'' \<mapsto> []]) = Some (open_store [''theme'' \<mapsto> []])
   \<and> \<not> blocked (open_store [''theme'' \<mapsto> []])
   \<and> items (open_store [''theme'' \<mapsto> []]) (key stub_hook) = Some []
   \<and> fst (deserializer stub_hook [] (browser [''theme'' \<mapsto> []])) = Normal (JStr ''deserialized'')
   \<and> readValue stub_hook (browser [''theme'' \<mapsto> []])
       = (Normal (JStr ''light''), browser [''theme'' \<mapsto> []])"
proof -
  have a: "window (browser [''theme'' \<mapsto> []]) = Some (open_store [''theme'' \<mapsto> []])"
    by (simp add: browser_def open_store_def)
  have b: "\<not> blocked (open_store [''theme'' \<mapsto> []])" by (simp add: open_store_def)
  have c: "items (open_store [''theme'' \<mapsto> []]) (key stub_hook) = Some []"
    by (simp add: open_store_def stub_hook_def)
  have d: "fst (deserializer stub_hook [] (browser [''theme'' \<mapsto> []])) = Normal (JStr ''deserialized'')"
    by (simp add: stub_hook_def deserializer_def default_options_def action_defs)
  show ?thesis
    using a b c d readValue_empty_text [OF a b c] by (simp add: stub_hook_def resolve_def)
qed

text \<open>
  C10. For a mounted hook in a browser tab with an accessible store: when the serializer
  throws on the new value, or the store refuses the write, \<open>setValue\<close> returns normally
  after logging one warning, and the in-memory state, the dispatched notifications and
  the store are what they were.
\<close>

theorem setValue_fault_is_atomic:
  assumes "committed s" and "window s = Some st" and "\<not> blocked st"
    and "newValue h action s = (Normal v, s1)"
    and "(\<exists>e. serializer h v s1 = (Throw e, s1)) \<or>
         (\<exists>t. serializer h v s1 = (Normal t, s1) \<and> refuses st (items st) (key h) (DOMString t))"
  shows "(\<exists>e. setValue h action s =
            (Normal (), s1\<lparr>console := console s1 @ [(Console_warn, Error_setting (key h) e)]\<rparr>))
         \<and> storedValue (snd (setValue h action s)) = storedValue s
         \<and> dispatched (snd (setValue h action s)) = dispatched s
         \<and> window (snd (setValue h action s)) = window s"
proof -
  obtain e where e: "setValue h action s =
      (Normal (), s1\<lparr>console := console s1 @ [(Console_warn, Error_setting (key h) e)]\<rparr>)"
    using setValue_fault [OF assms] by blast
  show ?thesis using e newValue_fields [OF assms(4)] by auto
qed

text \<open>
  A store that is full: \<open>"dark"\<close> is not written, the state stays \<open>"light"\<close>, nothing is
  dispatched.
\<close>

theorem setValue_fault_is_atomic_witness:
  "committed ((mounted theme_hook Map.empty)\<lparr>window := Some (full_store Map.empty)\<rparr>)
   \<and> window ((mounted theme_hook Map.empty)\<lparr>window := Some (full_store Map.empty)\<rparr>)
       = Some (full_store Map.empty)
   \<and> \<not> blocked (full_store Map.empty)
   \<and> newValue theme_hook (Value (JStr ''dark''))
         ((mounted theme_hook Map.empty)\<lparr>window := Some (full_store Map.empty)\<rparr>)
       = (Normal (JStr ''dark''),
          (mounted theme_hook Map.empty)\<lparr>window := Some (full_store Map.empty)\<rparr>)
   \<and> refuses (full_store Map.empty) (items (full_store Map.empty)) (key theme_hook)
         (DOMString (JSON_stringify (JStr ''dark'')))
   \<and> fst (setValue theme_hook (Value (JStr ''dark''))
         ((mounted theme_hook Map.empty)\<lparr>window := Some (full_store Map.empty)\<rparr>)) = Normal ()
   \<and> storedValue (snd (setValue theme_hook (Value (JStr ''dark''))
         ((mounted theme_hook Map.empty)\<lparr>window := Some (full_store Map.empty)\<rparr>))) = JStr ''light''
   \<and> dispatched (snd (setValue theme_hook (Value (JStr ''dark''))
         ((mounted theme_hook Map.empty)\<lparr>window := Some (full_store Map.empty)\<rparr>))) = []
   \<and> window (snd (setValue theme_hook (Value (JStr ''dark''))
         ((mounted theme_hook Map.empty)\<lparr>window := Some (full_store Map.empty)\<rparr>)))
       = Some (full_store Map.empty)"
proof -
  let ?s = "(mounted theme_hook Map.empty)\<lparr>window := Some (full_store Map.empty)\<rparr>"
  have a: "committed ?s" by (simp add: mounted_theme)
  have b: "window ?s = Some (full_store Map.empty)" by simp
  have c: "\<not> blocked (full_store Map.empty)" by (simp add: full_store_def)
  have d: "newValue theme_hook (Value (JStr ''dark'')) ?s = (Normal (JStr ''dark''), ?s)"
    by (simp add: newValue_def returns_def)
  have r: "refuses (full_store Map.empty) (items (full_store Map.empty)) (key theme_hook)
             (DOMString (JSON_stringify (JStr ''dark'')))"
    by (simp add: full_store_def)
  have ser: "serializer theme_hook (JStr ''dark'') ?s = (Normal (JSON_stringify (JStr ''dark'')), ?s)"
    by (simp add: serializer_def theme_hook_def default_options_def returns_def)
  have e: "(\<exists>e. serializer theme_hook (JStr ''dark'') ?s = (Throw e, ?s)) \<or>
           (\<exists>t. serializer theme_hook (JStr ''dark'') ?s = (Normal t, ?s)
              \<and> refuses (full_store Map.empty) (items (full_store Map.empty)) (key theme_hook) (DOMString t))"
    using ser r by blast
  have "fst (setValue theme_hook (Value (JStr ''dark'')) ?s) = Normal ()
        \<and> storedValue (snd (setValue theme_hook (Value (JStr ''dark'')) ?s)) = storedValue ?s
        \<and> dispatched (snd (setValue theme_hook (Value (JStr ''dark'')) ?s)) = dispatched ?s
        \<and> window (snd (setValue theme_hook (Value (JStr ''dark'')) ?s)) = window ?s"
    using setValue_fault_is_atomic [OF a b c d e] by auto
  then show ?thesis using a b c d r by (simp add: mounted_theme)
qed

end
